theory Spec2Isabelle
  imports Main "HOL-Library.Sublist"
begin

section \<open>Python strings\<close>

text \<open>
  A Python \<open>str\<close> is a sequence of Unicode code points; it is modelled as a list of
  natural numbers, one per code point. ASCII literals of the program are written
  \<open>lit ''...''\<close>; the few other code points of its message texts are given by number.
\<close>

type_synonym pystr = "nat list"

definition lit :: "string \<Rightarrow> pystr" where
  "lit cs = map of_char cs"

text \<open>
  \<open>str.isspace\<close> of one code point: the complete list of the code points that
  CPython counts as whitespace, which is also what \<open>str.strip()\<close> removes.
\<close>

definition isspace :: "nat \<Rightarrow> bool" where
  "isspace c \<longleftrightarrow>
     (9 \<le> c \<and> c \<le> 13) \<or> (28 \<le> c \<and> c \<le> 32) \<or> c = 133 \<or> c = 160 \<or> c = 5760 \<or>
     (8192 \<le> c \<and> c \<le> 8202) \<or> c = 8232 \<or> c = 8233 \<or> c = 8239 \<or> c = 8287 \<or>
     c = 12288"

text \<open>\<open>s.strip()\<close>: whitespace is dropped at both ends.\<close>

definition strip :: "pystr \<Rightarrow> pystr" where
  "strip s = rev (dropWhile isspace (rev (dropWhile isspace s)))"

text \<open>
  \<open>s.lower()\<close>. The ASCII capitals go to their small letters. Of all other code
  points, exactly two have a lower-case form that contains an ASCII character
  (U+0130 gives \<open>i\<close> followed by U+0307, the Kelvin sign U+212A gives \<open>k\<close>), and both
  are mapped as Python maps them. Every other code point is left as it is: Python
  maps the cased ones among them to code points outside ASCII again, so the ASCII
  part of the result, which is all that the program tests, is the same.
\<close>

definition lower_cp :: "nat \<Rightarrow> pystr" where
  "lower_cp c =
     (if 65 \<le> c \<and> c \<le> 90 then [c + 32]
      else if c = 304 then [105, 775]
      else if c = 8490 then [107]
      else [c])"

definition lower :: "pystr \<Rightarrow> pystr" where
  "lower s = concat (map lower_cp s)"

text \<open>\<open>pat in s\<close> on strings is \<^const>\<open>sublist\<close>, \<open>s.endswith(suf)\<close> is \<^const>\<open>suffix\<close>.\<close>

section \<open>The environment\<close>

text \<open>
  Two things the program consults are outside its source. The first is the Unicode
  table behind \<open>str.isalnum\<close> beyond ASCII, taken as the parameter \<open>isalnum_ext\<close>.
  The second is the file system: \<open>write_error path text\<close> is the text of the exception
  that creating the parent directory, opening \<open>path\<close> for writing or writing \<open>text\<close>
  raises, and \<open>None\<close> when the write goes through. A write that raises may still
  have changed the disk, since opening a file for writing creates or empties it
  before anything is written: \<open>files_after_error path text fs\<close> is what is on disk
  after such a write, when \<open>fs\<close> was there before.
\<close>

record env =
  isalnum_ext :: "nat \<Rightarrow> bool"
  write_error :: "pystr \<Rightarrow> pystr \<Rightarrow> pystr option"
  files_after_error :: "pystr \<Rightarrow> pystr \<Rightarrow> (pystr \<rightharpoonup> pystr) \<Rightarrow> (pystr \<rightharpoonup> pystr)"

definition isalnum :: "env \<Rightarrow> nat \<Rightarrow> bool" where
  "isalnum E c \<longleftrightarrow>
     (if c < 128 then (48 \<le> c \<and> c \<le> 57) \<or> (65 \<le> c \<and> c \<le> 90) \<or> (97 \<le> c \<and> c \<le> 122)
      else isalnum_ext E c)"

section \<open>The document and the two tools\<close>

text \<open>
  The global \<open>document_content\<close> and the files on disk form the state that the tools
  read and change; each tool returns its result text together with the new state.
  What the tools print on the console is not part of the model.
\<close>

record state =
  document_content :: pystr
  files :: "pystr \<rightharpoonup> pystr"

definition update_error :: pystr where
  "update_error = lit ''Error: Cannot update document with empty content.''"

definition update_prefix :: pystr where
  "update_prefix =
     9989 # lit '' Document has been updated successfully!'' @ [10, 10] @
     lit ''Current content:'' @ [10]"

definition update :: "pystr \<Rightarrow> state \<Rightarrow> pystr \<times> state" where
  "update content st =
     (if strip content = [] then (update_error, st)
      else (update_prefix @ strip content, st\<lparr>document_content := strip content\<rparr>))"

definition save_warning :: pystr where
  "save_warning = [9888, 65039] @ lit '' Warning: Document is empty. Saving empty document.''"

definition save_error :: "pystr \<Rightarrow> pystr" where
  "save_error e = 10060 # lit '' Error saving document: '' @ e"

definition save_success :: "pystr \<Rightarrow> pystr" where
  "save_success name =
     9989 # lit '' Document has been saved successfully to '' @ [39] @ name @ [39] @ lit ''.''"

text \<open>The line \<open>"".join(c for c in filename if c.isalnum() or c in "._- ")\<close>.\<close>

definition sanitize :: "env \<Rightarrow> pystr \<Rightarrow> pystr" where
  "sanitize E filename = filter (\<lambda>c. isalnum E c \<or> c \<in> set (lit ''._- '')) filename"

text \<open>
  \<open>save\<close>. After the sanitizing step the name holds no path separator and ends in
  \<open>.txt\<close>, so \<open>Path(filename)\<close> has the current directory as its parent and the
  whole name as its \<open>name\<close>: the file written and the file named in the result are
  the sanitized name itself. A write that raises leaves on disk what the environment
  says, and the document as it was.
\<close>

definition save :: "env \<Rightarrow> pystr \<Rightarrow> state \<Rightarrow> pystr \<times> state" where
  "save E filename st =
     (if strip (document_content st) = [] then (save_warning, st)
      else
        let filename1 = (if \<not> suffix (lit ''.txt'') filename then filename @ lit ''.txt''
                         else filename);
            filename2 = sanitize E filename1
        in case write_error E filename2 (document_content st) of
             None \<Rightarrow>
               (save_success filename2,
                st\<lparr>files := (files st)(filename2 \<mapsto> document_content st)\<rparr>)
           | Some e \<Rightarrow>
               (save_error e,
                st\<lparr>files := files_after_error E filename2 (document_content st) (files st)\<rparr>))"

section \<open>Messages and the termination test\<close>

text \<open>
  The tools list is \<open>[update, save]\<close>, each with one string argument, so a tool call
  requested by the model is one of two shapes. An \<open>AIMessage\<close> carries its text and
  the tool calls it requests.
\<close>

datatype tool_call = UpdateCall pystr | SaveCall pystr

datatype message =
    SystemMessage pystr
  | HumanMessage pystr
  | AIMessage pystr "tool_call list"
  | ToolMessage pystr

fun content :: "message \<Rightarrow> pystr" where
  "content (SystemMessage c) = c"
| "content (HumanMessage c) = c"
| "content (AIMessage c calls) = c"
| "content (ToolMessage c) = c"

fun is_tool_message :: "message \<Rightarrow> bool" where
  "is_tool_message (ToolMessage c) = True"
| "is_tool_message m = False"

text \<open>The condition tested on each message by the loop of \<open>should_continue\<close>.\<close>

definition reports_save :: "message \<Rightarrow> bool" where
  "reports_save m \<longleftrightarrow>
     is_tool_message m \<and>
     sublist (lit ''saved'') (lower (content m)) \<and>
     sublist (lit ''document'') (lower (content m)) \<and>
     sublist (lit ''successfully'') (lower (content m))"

text \<open>The \<open>for\<close> loop, run over the reversed history.\<close>

fun should_continue_loop :: "message list \<Rightarrow> pystr" where
  "should_continue_loop [] = lit ''continue''"
| "should_continue_loop (m # ms) =
     (if reports_save m then lit ''end'' else should_continue_loop ms)"

definition should_continue :: "message list \<Rightarrow> pystr" where
  "should_continue messages =
     (if messages = [] then lit ''continue'' else should_continue_loop (rev messages))"

section \<open>The graph\<close>

text \<open>
  \<open>get_user_input\<close>: on an empty history the welcome text, with nothing read;
  otherwise one line is read, \<open>None\<close> standing for an interrupt or the end of input,
  at which the process exits.
\<close>

definition welcome_message :: pystr where
  "welcome_message =
     [10, 127881] @ lit '' Welcome to Drafter - Your AI Document Assistant!'' @ [10, 10] @
     lit ''I can help you:'' @ [10, 8226] @
     lit '' Create new documents from scratch'' @ [10, 8226] @
     lit '' Edit and improve existing content'' @ [10, 8226] @
     lit '' Save your work to files'' @ [10, 8226] @
     lit '' Provide writing suggestions'' @ [10, 10] @
     lit ''What would you like to create or work on today?'' @ [10]"

definition get_user_input :: "message list \<Rightarrow> pystr option \<Rightarrow> message option" where
  "get_user_input messages line =
     (if messages = [] then Some (HumanMessage welcome_message)
      else case line of
             None \<Rightarrow> None
           | Some user_input \<Rightarrow>
               if strip user_input = []
               then Some (HumanMessage
                            (lit ''Please provide some input or say 'save' to finish.''))
               else Some (HumanMessage (strip user_input)))"

text \<open>
  \<open>our_agent\<close>: the user message and the response are appended to the history.
  \<open>response\<close> is what the model returned, or the \<open>AIMessage\<close> with the error text
  that takes its place when the call to the model raised.
\<close>

definition our_agent :: "pystr option \<Rightarrow> message \<Rightarrow> message list \<Rightarrow> message list option" where
  "our_agent line response messages =
     (case get_user_input messages line of
        None \<Rightarrow> None
      | Some user_message \<Rightarrow> Some (messages @ [user_message, response]))"

text \<open>
  The node \<open>ToolNode(tools)\<close>: the tool calls of the last message are run in the
  order of the request, each giving one \<open>ToolMessage\<close> with the tool's result, and
  the results are appended to the history. The calls of one response are taken to
  run one after the other, each on the state that the one before it left; the
  library may overlap them, which can change what a \<open>save\<close> beside an \<open>update\<close>
  writes, but not the results appended nor their order. The node raises when the
  last message is not an \<open>AIMessage\<close>, which is the result \<open>None\<close>.
\<close>

fun run_tool :: "env \<Rightarrow> tool_call \<Rightarrow> state \<Rightarrow> pystr \<times> state" where
  "run_tool E (UpdateCall c) st = update c st"
| "run_tool E (SaveCall filename) st = save E filename st"

fun run_tools :: "env \<Rightarrow> tool_call list \<Rightarrow> state \<Rightarrow> message list \<times> state" where
  "run_tools E [] st = ([], st)"
| "run_tools E (call # calls) st =
     (let (text, st1) = run_tool E call st;
          (rest, st2) = run_tools E calls st1
      in (ToolMessage text # rest, st2))"

definition tool_node :: "env \<Rightarrow> message list \<Rightarrow> state \<Rightarrow> (message list \<times> state) option" where
  "tool_node E messages st =
     (case rev messages of
        AIMessage c calls # earlier \<Rightarrow>
          (let (results, st1) = run_tools E calls st in Some (messages @ results, st1))
      | _ \<Rightarrow> None)"

text \<open>
  The edges of \<open>setup_graph\<close>: \<open>add_edge("agent", "tools")\<close>, and the conditional
  edges from \<open>tools\<close> that send \<open>"continue"\<close> to \<open>agent\<close> and \<open>"end"\<close> to \<open>END\<close>.
  One step of the compiled graph runs the current node and follows its edge.
\<close>

datatype node = Agent | Tools | END

definition after_agent :: node where
  "after_agent = Tools"

definition after_tools :: "message list \<Rightarrow> node" where
  "after_tools messages = (if should_continue messages = lit ''end'' then END else Agent)"

inductive step :: "env \<Rightarrow> node \<times> message list \<times> state \<Rightarrow> node \<times> message list \<times> state \<Rightarrow> bool"
  for E :: env where
  agent_step:
    "our_agent line (AIMessage text calls) messages = Some messages1 \<Longrightarrow>
     step E (Agent, messages, st) (after_agent, messages1, st)"
| tools_step:
    "tool_node E messages st = Some (messages1, st1) \<Longrightarrow>
     step E (Tools, messages, st) (after_tools messages1, messages1, st1)"

section \<open>Two example environments\<close>

text \<open>
  Concrete environments at which the definitions are evaluated. In the first every
  write goes through. In the second every write is refused when the file is opened,
  so that nothing on disk changes, with the text that the operating system's error
  carries: the error number, its description and the quoted file name. Neither counts a code point beyond ASCII as alphanumeric; the
  file names used with them are ASCII.
\<close>

definition writable_env :: env where
  "writable_env =
     \<lparr>isalnum_ext = (\<lambda>c. False),
      write_error = (\<lambda>path text. None),
      files_after_error = (\<lambda>path text fs. fs)\<rparr>"

definition permission_denied :: "pystr \<Rightarrow> pystr" where
  "permission_denied path = lit ''[Errno 13] Permission denied: '' @ [39] @ path @ [39]"

definition denying_env :: env where
  "denying_env =
     \<lparr>isalnum_ext = (\<lambda>c. False),
      write_error = (\<lambda>path text. Some (permission_denied path)),
      files_after_error = (\<lambda>path text fs. fs)\<rparr>"

definition draft_state :: state where
  "draft_state = \<lparr>document_content = lit ''line1'', files = Map.empty\<rparr>"

section \<open>Auxiliary facts\<close>

lemma strip_Nil: "strip [] = []"
  by (simp add: strip_def)

lemma strip_blank:
  assumes "\<forall>c \<in> set s. isspace c"
  shows "strip s = []"
proof -
  from assms have d: "dropWhile isspace s = []"
    by (induction s) simp_all
  show ?thesis unfolding strip_def d by simp
qed

lemma strip_idem: "strip (strip s) = strip s"
proof -
  define t where "t = dropWhile isspace s"
  define u where "u = rev (dropWhile isspace (rev t))"
  have su: "strip s = u" by (simp add: strip_def t_def u_def)
  have tu: "t = u @ rev (takeWhile isspace (rev t))"
  proof -
    have "rev (rev t) = rev (takeWhile isspace (rev t) @ dropWhile isspace (rev t))"
      by (simp only: takeWhile_dropWhile_id)
    then show ?thesis by (simp only: rev_rev_ident rev_append u_def)
  qed
  have front: "dropWhile isspace u = u"
  proof (cases u)
    case Nil
    then show ?thesis by simp
  next
    case (Cons x xs)
    from tu Cons obtain w where "t = x # w" by simp
    then have "t \<noteq> []" and "hd t = x" by simp_all
    then have "\<not> isspace x" unfolding t_def using hd_dropWhile by metis
    with Cons show ?thesis by simp
  qed
  have rear: "dropWhile isspace (rev u) = rev u" by (simp add: u_def)
  show ?thesis unfolding su by (simp add: strip_def front rear)
qed

lemma lower_append: "lower (a @ b) = lower a @ lower b"
  by (simp add: lower_def)

lemma loop_end_iff:
  "should_continue_loop ms = lit ''end'' \<longleftrightarrow> (\<exists>m \<in> set ms. reports_save m)"
  by (induction ms) (auto simp: lit_def)

lemma loop_cases:
  "should_continue_loop ms = lit ''end'' \<or> should_continue_loop ms = lit ''continue''"
  by (induction ms) auto

lemma should_continue_end_iff:
  "should_continue ms = lit ''end'' \<longleftrightarrow> (\<exists>m \<in> set ms. reports_save m)"
proof (cases "ms = []")
  case True
  then show ?thesis by (simp add: should_continue_def lit_def)
next
  case False
  then have "should_continue ms = should_continue_loop (rev ms)"
    by (simp add: should_continue_def)
  then show ?thesis using loop_end_iff [of "rev ms"] by simp
qed

lemma should_continue_cases:
  "should_continue ms = lit ''end'' \<or> should_continue ms = lit ''continue''"
  using loop_cases [of "rev ms"] by (simp add: should_continue_def)

lemma should_continue_continue_iff:
  "should_continue ms = lit ''continue'' \<longleftrightarrow> \<not> (\<exists>m \<in> set ms. reports_save m)"
proof -
  have "lit ''end'' \<noteq> lit ''continue''" by (simp add: lit_def)
  then show ?thesis
    using should_continue_cases [of ms] should_continue_end_iff [of ms] by metis
qed

text \<open>A word cannot lie across a character that it does not contain.\<close>

lemma sublist_skip:
  assumes "c \<notin> set p"
  shows "sublist p (a @ c # b) \<longleftrightarrow> sublist p a \<or> sublist p b"
proof -
  have pre: "prefix p (c # b) \<Longrightarrow> p = []" for b
    using assms by (cases p) auto
  have right: "sublist p (c # b) \<longleftrightarrow> sublist p b"
    using pre by (auto simp: sublist_Cons_right)
  have mid: "sublist p a" if "p = xs1 @ xs2" "suffix xs1 a" "prefix xs2 (c # b)" for xs1 xs2
  proof -
    have "xs2 = []" using that assms by (cases xs2) auto
    with that show ?thesis by auto
  qed
  show ?thesis
    using mid by (auto simp: sublist_append right)
qed

lemma save_keeps_document: "document_content (snd (save E f st)) = document_content st"
proof (cases "strip (document_content st) = []")
  case True
  then show ?thesis by (simp add: save_def)
next
  case False
  define p where
    "p = sanitize E (if \<not> suffix (lit ''.txt'') f then f @ lit ''.txt'' else f)"
  have "save E f st =
      (case write_error E p (document_content st) of
         None \<Rightarrow> (save_success p, st\<lparr>files := (files st)(p \<mapsto> document_content st)\<rparr>)
       | Some e \<Rightarrow>
           (save_error e, st\<lparr>files := files_after_error E p (document_content st) (files st)\<rparr>))"
    using False unfolding save_def p_def Let_def by (simp only: if_False)
  then show ?thesis
    by (cases "write_error E p (document_content st)") simp_all
qed

lemma run_tool_trimmed:
  assumes "strip (document_content st) = document_content st"
  shows "strip (document_content (snd (run_tool E call st))) = document_content (snd (run_tool E call st))"
proof (cases call)
  case (UpdateCall c)
  then show ?thesis using assms by (simp add: update_def strip_idem)
next
  case (SaveCall f)
  then show ?thesis using assms by (simp add: save_keeps_document)
qed

lemma run_tools_trimmed:
  "strip (document_content st) = document_content st \<Longrightarrow>
   strip (document_content (snd (run_tools E calls st))) = document_content (snd (run_tools E calls st))"
proof (induction calls arbitrary: st)
  case Nil
  then show ?case by simp
next
  case (Cons call calls)
  have "strip (document_content (snd (run_tool E call st))) = document_content (snd (run_tool E call st))"
    using Cons.prems by (rule run_tool_trimmed)
  from Cons.IH [OF this] show ?case
    by (simp add: case_prod_beta)
qed

lemma sublist_in_context: "sublist p x \<Longrightarrow> sublist p (ps @ x @ ss)"
  by (rule sublist_order.order.trans [OF _ sublist_appendI])

lemma end_not_continue: "lit ''end'' \<noteq> lit ''continue''"
  by (simp add: lit_def)

lemma should_continue_single:
  "should_continue [m] = (if reports_save m then lit ''end'' else lit ''continue'')"
  by (simp add: should_continue_def)

lemma reports_save_ToolMessage:
  "reports_save (ToolMessage t) \<longleftrightarrow>
     sublist (lit ''saved'') (lower t) \<and> sublist (lit ''document'') (lower t) \<and>
     sublist (lit ''successfully'') (lower t)"
  by (simp add: reports_save_def)

lemma reports_save_update:
  "reports_save (ToolMessage (update_prefix @ d)) \<longleftrightarrow> sublist (lit ''saved'') (lower d)"
proof -
  define L where
    "L = 9989 # lit '' document has been updated successfully!'' @ [10, 10] @ lit ''current content:''"
  have low: "lower (update_prefix @ d) = L @ 10 # lower d"
    by (simp add: update_prefix_def lower_def lower_cp_def lit_def L_def)
  have n: "10 \<notin> set (lit ''saved'')" by (simp add: lit_def)
  have a: "\<not> sublist (lit ''saved'') L" by (simp add: L_def lit_def sublist_Cons_right)
  have b: "sublist (lit ''document'') L" by (simp add: L_def lit_def sublist_Cons_right)
  have c: "sublist (lit ''successfully'') L" by (simp add: L_def lit_def sublist_Cons_right)
  have b': "sublist (lit ''document'') (L @ 10 # lower d)"
    using sublist_in_context [OF b, of "[]" "10 # lower d"] by simp
  have c': "sublist (lit ''successfully'') (L @ 10 # lower d)"
    using sublist_in_context [OF c, of "[]" "10 # lower d"] by simp
  show ?thesis
    unfolding reports_save_ToolMessage low
    using sublist_skip [OF n, of L "lower d"] a b' c' by blast
qed

lemma reports_save_error:
  "reports_save (ToolMessage (save_error e)) \<longleftrightarrow>
     sublist (lit ''saved'') (lower e) \<and> sublist (lit ''successfully'') (lower e)"
proof -
  define L where "L = 10060 # lit '' error saving document:''"
  have low: "lower (save_error e) = L @ 32 # lower e"
    by (simp add: save_error_def lower_def lower_cp_def lit_def L_def)
  have n1: "32 \<notin> set (lit ''saved'')" by (simp add: lit_def)
  have n2: "32 \<notin> set (lit ''successfully'')" by (simp add: lit_def)
  have a: "\<not> sublist (lit ''saved'') L" by (simp add: L_def lit_def sublist_Cons_right)
  have b: "sublist (lit ''document'') L" by (simp add: L_def lit_def sublist_Cons_right)
  have c: "\<not> sublist (lit ''successfully'') L" by (simp add: L_def lit_def sublist_Cons_right)
  have b': "sublist (lit ''document'') (L @ 32 # lower e)"
    using sublist_in_context [OF b, of "[]" "32 # lower e"] by simp
  show ?thesis
    unfolding reports_save_ToolMessage low
    using sublist_skip [OF n1, of L "lower e"] sublist_skip [OF n2, of L "lower e"] a b' c
    by blast
qed

lemma reports_save_success: "reports_save (ToolMessage (save_success name))"
proof -
  define L where "L = lit '' document has been saved successfully to ''"
  have low: "lower (save_success name) = [9989] @ L @ (39 # lower name @ [39] @ lit ''.'')"
    by (simp add: save_success_def lower_def lower_cp_def lit_def L_def)
  have a: "sublist (lit ''saved'') L" by (simp add: L_def lit_def sublist_Cons_right)
  have b: "sublist (lit ''document'') L" by (simp add: L_def lit_def sublist_Cons_right)
  have c: "sublist (lit ''successfully'') L" by (simp add: L_def lit_def sublist_Cons_right)
  show ?thesis
    unfolding reports_save_ToolMessage low
    using a b c by (blast intro: sublist_in_context)
qed

lemma reports_save_warning: "\<not> reports_save (ToolMessage save_warning)"
proof -
  have low: "lower save_warning =
      [9888, 65039] @ lit '' warning: document is empty. saving empty document.''"
    by (simp add: save_warning_def lower_def lower_cp_def lit_def)
  have "\<not> sublist (lit ''saved'') (lower save_warning)"
    unfolding low by (simp add: lit_def sublist_Cons_right)
  then show ?thesis by (simp add: reports_save_ToolMessage)
qed

lemma sanitize_append: "sanitize E (a @ b) = sanitize E a @ sanitize E b"
  by (simp add: sanitize_def)

lemma sanitize_txt: "sanitize E (lit ''.txt'') = lit ''.txt''"
  by (simp add: sanitize_def isalnum_def lit_def)

lemma save_nonempty:
  assumes "strip (document_content st) \<noteq> []"
  shows "save E f st =
     (case write_error E (sanitize E (if \<not> suffix (lit ''.txt'') f then f @ lit ''.txt'' else f))
             (document_content st) of
        None \<Rightarrow>
          (save_success (sanitize E (if \<not> suffix (lit ''.txt'') f then f @ lit ''.txt'' else f)),
           st\<lparr>files := (files st)
              (sanitize E (if \<not> suffix (lit ''.txt'') f then f @ lit ''.txt'' else f)
                 \<mapsto> document_content st)\<rparr>)
      | Some e \<Rightarrow>
          (save_error e,
           st\<lparr>files := files_after_error E
              (sanitize E (if \<not> suffix (lit ''.txt'') f then f @ lit ''.txt'' else f))
              (document_content st) (files st)\<rparr>))"
  using assms unfolding save_def Let_def by (simp only: if_False)

text \<open>
  On every history that the graph reaches from the empty one without having ended,
  \<open>should_continue\<close> answers \<open>"continue"\<close>.
\<close>

lemma our_agent_appends:
  assumes "our_agent line response ms = Some ms1"
  shows "\<exists>u. ms1 = ms @ [HumanMessage u, response]"
  using assms
  by (auto simp: our_agent_def get_user_input_def split: option.splits if_splits)

lemma reports_save_is_tool: "reports_save m \<Longrightarrow> is_tool_message m"
  by (simp add: reports_save_def)

lemma step_keeps_continue:
  assumes "step E (n, ms, st) (n1, ms1, st1)"
    and "should_continue ms = lit ''continue''"
    and "n1 \<noteq> END"
  shows "should_continue ms1 = lit ''continue''"
  using assms(1)
proof (cases rule: step.cases)
  case (agent_step line tx calls)
  then obtain u where ms1: "ms1 = ms @ [HumanMessage u, AIMessage tx calls]"
    using our_agent_appends by blast
  have "\<not> (\<exists>m \<in> set ms. reports_save m)"
    using assms(2) should_continue_continue_iff by blast
  then have "\<not> (\<exists>m \<in> set ms1. reports_save m)"
    unfolding ms1 using reports_save_is_tool by fastforce
  then show ?thesis using should_continue_continue_iff by blast
next
  case tools_step
  with assms(3) have "should_continue ms1 \<noteq> lit ''end''"
    by (auto simp: after_tools_def split: if_splits)
  then show ?thesis using should_continue_cases [of ms1] by blast
qed

lemma reachable_continue:
  assumes "(step E)\<^sup>*\<^sup>* (Agent, [], st0) c"
  shows "fst c \<noteq> END \<longrightarrow> should_continue (fst (snd c)) = lit ''continue''"
  using assms
proof (induction rule: rtranclp_induct)
  case base
  show ?case by (simp add: should_continue_def)
next
  case (step c c1)
  obtain n ms st where c: "c = (n, ms, st)" by (cases c)
  obtain n1 ms1 st1 where c1: "c1 = (n1, ms1, st1)" by (cases c1)
  have "n \<noteq> END" using step.hyps(2) unfolding c c1 by (auto elim: step.cases)
  with step.IH have "should_continue ms = lit ''continue''" by (simp add: c)
  with step.hyps(2) show ?case
    unfolding c c1 using step_keeps_continue by fastforce
qed

section \<open>The claims\<close>

text \<open>
  C6. For every string \<open>s\<close> whose trimmed form is not empty, \<open>update(s)\<close> succeeds
  and the document read afterwards is \<open>trim(s)\<close>, whatever the document held before.
\<close>

theorem update_stores_trimmed:
  "strip s \<noteq> [] \<Longrightarrow>
   update s st = (update_prefix @ strip s, st\<lparr>document_content := strip s\<rparr>) \<and>
   document_content (snd (update s st)) = strip s"
  by (simp add: update_def)

theorem update_stores_trimmed_witness:
  "strip (lit ''  two words  '') \<noteq> [] \<and>
   document_content (snd (update (lit ''  two words  '')
       \<lparr>document_content = lit ''old'', files = Map.empty\<rparr>)) = lit ''two words''"
proof -
  have s: "strip (lit ''  two words  '') = lit ''two words''"
    by (simp add: strip_def lit_def isspace_def)
  then have h: "strip (lit ''  two words  '') \<noteq> []" by (simp add: lit_def)
  from update_stores_trimmed [OF h] s h show ?thesis by simp
qed

text \<open>
  C7. \<open>update\<close> called with the empty string or with a string of whitespace only
  returns the empty-content error text and leaves the state, and so the stored
  document, exactly as it was.
\<close>

theorem update_blank_rejected:
  "list_all isspace s \<Longrightarrow> update s st = (update_error, st)"
  by (simp add: update_def strip_blank list_all_iff)

theorem update_blank_rejected_witness:
  "list_all isspace (lit ''   '') \<and> list_all isspace (lit []) \<and>
   update (lit ''   '') \<lparr>document_content = lit ''old'', files = Map.empty\<rparr>
     = (update_error, \<lparr>document_content = lit ''old'', files = Map.empty\<rparr>) \<and>
   update (lit []) \<lparr>document_content = lit ''old'', files = Map.empty\<rparr>
     = (update_error, \<lparr>document_content = lit ''old'', files = Map.empty\<rparr>)"
proof -
  have h1: "list_all isspace (lit ''   '')" by (simp add: lit_def isspace_def)
  have h2: "list_all isspace (lit [])" by (simp add: lit_def)
  from update_blank_rejected [OF h1] update_blank_rejected [OF h2] h1 h2
  show ?thesis by blast
qed

text \<open>
  C8. Sanitizing a file name that has already been sanitized gives the same name.
\<close>

theorem sanitize_idempotent: "sanitize E (sanitize E f) = sanitize E f"
  by (simp add: sanitize_def)

text \<open>
  C9. Starting from the empty document, after every sequence of \<open>update\<close> and
  \<open>save\<close> calls the stored document equals its own trimmed form.
\<close>

theorem document_always_trimmed:
  "strip (document_content (snd (run_tools E calls \<lparr>document_content = [], files = fs\<rparr>)))
     = document_content (snd (run_tools E calls \<lparr>document_content = [], files = fs\<rparr>))"
  by (rule run_tools_trimmed) (simp add: strip_def)

text \<open>
  C10. The termination test is monotone under appending: when \<open>should_continue\<close>
  answers \<open>"end"\<close> on a history, it answers \<open>"end"\<close> on that history with any
  further message appended.
\<close>

theorem should_continue_append:
  "should_continue h = lit ''end'' \<Longrightarrow> should_continue (h @ [m]) = lit ''end''"
  by (auto simp: should_continue_end_iff)

theorem should_continue_append_witness:
  "should_continue [ToolMessage (save_success (lit ''poem.txt''))] = lit ''end'' \<and>
   should_continue ([ToolMessage (save_success (lit ''poem.txt''))] @ [HumanMessage (lit ''thanks'')])
     = lit ''end''"
proof -
  have h: "should_continue [ToolMessage (save_success (lit ''poem.txt''))] = lit ''end''"
    by (simp add: should_continue_single reports_save_success)
  from should_continue_append [OF h] h show ?thesis by blast
qed

text \<open>
  C1, at the input where the code departs from it: \<open>save\<close> called while the
  document is empty returns at once with the warning text. No file is written, and
  the warning text does not carry the words that \<open>should_continue\<close> looks for,
  so the session goes on.
\<close>

theorem save_empty_document_returns_early:
  "save E f \<lparr>document_content = [], files = fs\<rparr>
     = (save_warning, \<lparr>document_content = [], files = fs\<rparr>) \<and>
   files (snd (save E f \<lparr>document_content = [], files = fs\<rparr>)) = fs \<and>
   should_continue [ToolMessage (fst (save E f \<lparr>document_content = [], files = fs\<rparr>))]
     = lit ''continue''"
proof -
  have s: "save E f \<lparr>document_content = [], files = fs\<rparr>
      = (save_warning, \<lparr>document_content = [], files = fs\<rparr>)"
    by (simp add: save_def strip_Nil)
  show ?thesis
    unfolding s by (simp add: should_continue_single reports_save_warning)
qed

text \<open>
  C2, at an input where the code departs from it. The text of a failed save repeats
  the text of the exception, which quotes the file name. For the name
  \<open>saved successfully\<close> and a refused write, nothing is written, the result is the
  failed-save text, and that text carries all three words: \<open>should_continue\<close> answers
  \<open>"end"\<close> on a history whose only \<open>ToolMessage\<close> it is.
\<close>

theorem failed_save_ends_session:
  "save denying_env (lit ''saved successfully'') draft_state
     = (save_error (permission_denied (lit ''saved successfully.txt'')), draft_state) \<and>
   should_continue
     [HumanMessage (lit ''save it''),
      AIMessage [] [SaveCall (lit ''saved successfully'')],
      ToolMessage (fst (save denying_env (lit ''saved successfully'') draft_state))]
     = lit ''end''"
proof -
  have ne: "strip (document_content draft_state) \<noteq> []"
    by (simp add: draft_state_def strip_def lit_def isspace_def)
  have p: "sanitize denying_env (lit ''saved successfully'' @ lit ''.txt'')
      = lit ''saved successfully.txt''"
    by (simp add: sanitize_def isalnum_def lit_def)
  have ns: "\<not> suffix (lit ''.txt'') (lit ''saved successfully'')"
    by (simp add: lit_def suffix_to_prefix)
  have s: "save denying_env (lit ''saved successfully'') draft_state
      = (save_error (permission_denied (lit ''saved successfully.txt'')), draft_state)"
    unfolding save_nonempty [OF ne] using ns
    by (simp add: p) (simp add: denying_env_def draft_state_def)
  have a: "sublist (lit ''saved'')
      (lower (permission_denied (lit ''saved successfully.txt'')))"
    by (simp add: permission_denied_def lower_def lower_cp_def lit_def sublist_Cons_right)
  have b: "sublist (lit ''successfully'')
      (lower (permission_denied (lit ''saved successfully.txt'')))"
    by (simp add: permission_denied_def lower_def lower_cp_def lit_def sublist_Cons_right)
  have r: "reports_save
      (ToolMessage (save_error (permission_denied (lit ''saved successfully.txt''))))"
    using a b by (simp only: reports_save_error simp_thms)
  show ?thesis
    unfolding s using r by (simp add: should_continue_end_iff)
qed

text \<open>
  C3, at an input where the code departs from it. The confirmation of a successful
  \<open>update\<close> repeats the new content after the words \<open>Document\<close> and
  \<open>successfully\<close>. For the content \<open>I saved it\<close> the confirmation carries all
  three words, and \<open>should_continue\<close> answers \<open>"end"\<close> although nothing was saved.
\<close>

theorem update_message_ends_session:
  "strip (lit ''I saved it'') \<noteq> [] \<and>
   should_continue
     [HumanMessage (lit ''note that I saved it''),
      AIMessage [] [UpdateCall (lit ''I saved it'')],
      ToolMessage (fst (update (lit ''I saved it'') draft_state))]
     = lit ''end''"
proof -
  have s: "strip (lit ''I saved it'') = lit ''I saved it''"
    by (simp add: strip_def lit_def isspace_def)
  then have ne: "strip (lit ''I saved it'') \<noteq> []" by (simp add: lit_def)
  have u: "fst (update (lit ''I saved it'') draft_state) = update_prefix @ lit ''I saved it''"
    using ne by (simp add: update_def s)
  have "sublist (lit ''saved'') (lower (lit ''I saved it''))"
    by (simp add: lower_def lower_cp_def lit_def sublist_Cons_right)
  then have "reports_save (ToolMessage (update_prefix @ lit ''I saved it''))"
    by (simp only: reports_save_update)
  then show ?thesis
    using ne unfolding u by (simp add: should_continue_end_iff)
qed

text \<open>
  C4, as stated, fails: the edge from \<open>agent\<close> to \<open>tools\<close> is unconditional, so a
  response without tool calls leads to the tools node as well, and not back to the
  agent node.
\<close>

theorem reply_without_tool_calls_enters_tools:
  "step writable_env (Agent, [], draft_state)
     (Tools, [HumanMessage welcome_message, AIMessage (lit ''Hello'') []], draft_state) \<and>
   \<not> step writable_env (Agent, [], draft_state)
     (Agent, [HumanMessage welcome_message, AIMessage (lit ''Hello'') []], draft_state)"
proof
  have "our_agent None (AIMessage (lit ''Hello'') []) []
      = Some [HumanMessage welcome_message, AIMessage (lit ''Hello'') []]"
    by (simp add: our_agent_def get_user_input_def)
  from agent_step [OF this]
  show "step writable_env (Agent, [], draft_state)
     (Tools, [HumanMessage welcome_message, AIMessage (lit ''Hello'') []], draft_state)"
    by (simp add: after_agent_def)
next
  show "\<not> step writable_env (Agent, [], draft_state)
     (Agent, [HumanMessage welcome_message, AIMessage (lit ''Hello'') []], draft_state)"
    by (auto elim: step.cases simp: after_agent_def)
qed

text \<open>
  C4, amended. Every step from the agent node leads to the tools node, and every
  response of the model, with tool calls or without, gives such a step. After a
  response without tool calls, in every configuration that the graph reaches from
  the empty history, the tools node has exactly one step: back to the agent node,
  where the user's input is awaited, with the history and the state unchanged.
\<close>

theorem reply_returns_through_tools:
  "(step E (Agent, ms, st) (n, ms', st') \<longrightarrow> n = Tools) \<and>
   (our_agent line (AIMessage tx calls) ms = Some reply \<longrightarrow>
      step E (Agent, ms, st) (Tools, reply, st)) \<and>
   ((step E)\<^sup>*\<^sup>* (Agent, [], start) (Tools, ms @ [AIMessage tx []], st) \<longrightarrow>
      (step E (Tools, ms @ [AIMessage tx []], st) c \<longleftrightarrow>
         c = (Agent, ms @ [AIMessage tx []], st)))"
proof (intro conjI impI)
  assume "step E (Agent, ms, st) (n, ms', st')"
  then show "n = Tools"
    by (auto elim: step.cases simp: after_agent_def)
next
  assume "our_agent line (AIMessage tx calls) ms = Some reply"
  from agent_step [OF this] show "step E (Agent, ms, st) (Tools, reply, st)"
    by (simp add: after_agent_def)
next
  assume r: "(step E)\<^sup>*\<^sup>* (Agent, [], start) (Tools, ms @ [AIMessage tx []], st)"
  define M where "M = ms @ [AIMessage tx []]"
  have t: "tool_node E M st = Some (M, st)"
    by (simp add: tool_node_def M_def)
  have "should_continue M = lit ''continue''"
    using reachable_continue [OF r] by (simp add: M_def)
  then have a: "after_tools M = Agent"
    using end_not_continue by (simp add: after_tools_def)
  have "step E (Tools, M, st) c \<longleftrightarrow> c = (Agent, M, st)"
  proof
    assume "step E (Tools, M, st) c"
    then show "c = (Agent, M, st)"
      using t a by (auto elim: step.cases)
  next
    assume "c = (Agent, M, st)"
    then show "step E (Tools, M, st) c"
      using tools_step [OF t] a by simp
  qed
  then show "step E (Tools, ms @ [AIMessage tx []], st) c \<longleftrightarrow>
      c = (Agent, ms @ [AIMessage tx []], st)"
    by (simp only: M_def)
qed

theorem reply_returns_through_tools_witness:
  "our_agent None (AIMessage (lit ''Hello'') []) []
     = Some ([HumanMessage welcome_message] @ [AIMessage (lit ''Hello'') []]) \<and>
   step writable_env (Agent, [], draft_state)
     (Tools, [HumanMessage welcome_message] @ [AIMessage (lit ''Hello'') []], draft_state) \<and>
   (step writable_env)\<^sup>*\<^sup>* (Agent, [], draft_state)
     (Tools, [HumanMessage welcome_message] @ [AIMessage (lit ''Hello'') []], draft_state) \<and>
   step writable_env
     (Tools, [HumanMessage welcome_message] @ [AIMessage (lit ''Hello'') []], draft_state)
     (Agent, [HumanMessage welcome_message] @ [AIMessage (lit ''Hello'') []], draft_state)"
proof -
  define M where "M = [HumanMessage welcome_message] @ [AIMessage (lit ''Hello'') []]"
  have o: "our_agent None (AIMessage (lit ''Hello'') []) [] = Some M"
    by (simp add: our_agent_def get_user_input_def M_def)
  note T = reply_returns_through_tools
    [where E = writable_env and ms = "[]" and st = draft_state and line = None
       and tx = "lit ''Hello''" and calls = "[]" and reply = M]
  from T o have s1: "step writable_env (Agent, [], draft_state) (Tools, M, draft_state)"
    by blast
  then have r: "(step writable_env)\<^sup>*\<^sup>* (Agent, [], draft_state) (Tools, M, draft_state)"
    by (rule r_into_rtranclp)
  from reply_returns_through_tools
    [where E = writable_env and ms = "[HumanMessage welcome_message]" and st = draft_state
       and tx = "lit ''Hello''" and start = draft_state and c = "(Agent, M, draft_state)"] r
  have s2: "step writable_env (Tools, M, draft_state) (Agent, M, draft_state)"
    unfolding M_def by blast
  from o s1 r s2 show ?thesis unfolding M_def by blast
qed

text \<open>
  C5, as stated, fails: the name is sanitized after the extension is appended. For
  \<open>draft.txt?\<close>, which does not end in \<open>.txt\<close>, nothing is written to
  \<open>draft.txt?.txt\<close>; the file written is \<open>draft.txt.txt\<close>, whose name ends in the
  extension twice.
\<close>

theorem save_strips_before_writing:
  "\<not> suffix (lit ''.txt'') (lit ''draft.txt?'') \<and>
   save writable_env (lit ''draft.txt?'') draft_state
     = (save_success (lit ''draft.txt.txt''),
        draft_state\<lparr>files := (files draft_state)(lit ''draft.txt.txt'' \<mapsto> lit ''line1'')\<rparr>) \<and>
   files (snd (save writable_env (lit ''draft.txt?'') draft_state)) (lit ''draft.txt?'' @ lit ''.txt'')
     = None \<and>
   suffix (lit ''.txt'' @ lit ''.txt'') (lit ''draft.txt.txt'')"
proof -
  have ne: "strip (document_content draft_state) \<noteq> []"
    by (simp add: draft_state_def strip_def lit_def isspace_def)
  have ns: "\<not> suffix (lit ''.txt'') (lit ''draft.txt?'')"
    by (simp add: lit_def suffix_to_prefix)
  have p: "sanitize writable_env (lit ''draft.txt?'' @ lit ''.txt'') = lit ''draft.txt.txt''"
    by (simp add: sanitize_def isalnum_def lit_def)
  have w: "write_error writable_env path body = None" for path body
    by (simp add: writable_env_def)
  have dc: "document_content draft_state = lit ''line1''"
    by (simp add: draft_state_def)
  have s: "save writable_env (lit ''draft.txt?'') draft_state
     = (save_success (lit ''draft.txt.txt''),
        draft_state\<lparr>files := (files draft_state)(lit ''draft.txt.txt'' \<mapsto> lit ''line1'')\<rparr>)"
    unfolding save_nonempty [OF ne] using ns by (simp add: p w dc)
  have d: "lit ''draft.txt?'' @ lit ''.txt'' \<noteq> lit ''draft.txt.txt''"
    by (simp add: lit_def)
  have f: "files (snd (save writable_env (lit ''draft.txt?'') draft_state))
      (lit ''draft.txt?'' @ lit ''.txt'') = None"
    unfolding s using d by (simp add: draft_state_def)
  have e: "suffix (lit ''.txt'' @ lit ''.txt'') (lit ''draft.txt.txt'')"
    by (simp add: lit_def suffix_to_prefix)
  from ns s f e show ?thesis by blast
qed

text \<open>
  C5, amended. When the document is not empty and the write goes through,
  \<open>save(f)\<close> writes the document to the sanitized \<open>f\<close> followed by \<open>.txt\<close> if \<open>f\<close>
  does not end in \<open>.txt\<close>, and to the sanitized \<open>f\<close> with nothing appended if it
  does. For an \<open>f\<close> that sanitizing leaves unchanged these are \<open>f\<close> followed by
  \<open>.txt\<close> and \<open>f\<close> itself.
\<close>

theorem save_writes_sanitized_path:
  assumes "strip (document_content st) \<noteq> []"
    and "p = (if suffix (lit ''.txt'') f then sanitize E f else sanitize E f @ lit ''.txt'')"
    and "write_error E p (document_content st) = None"
  shows "save E f st = (save_success p, st\<lparr>files := (files st)(p \<mapsto> document_content st)\<rparr>) \<and>
    (sanitize E f = f \<longrightarrow> p = (if suffix (lit ''.txt'') f then f else f @ lit ''.txt''))"
proof -
  have q: "sanitize E (if \<not> suffix (lit ''.txt'') f then f @ lit ''.txt'' else f) = p"
    unfolding assms(2) by (simp add: sanitize_append sanitize_txt)
  have "save E f st = (save_success p, st\<lparr>files := (files st)(p \<mapsto> document_content st)\<rparr>)"
    unfolding save_nonempty [OF assms(1)] q using assms(3) by simp
  moreover have "sanitize E f = f \<longrightarrow> p = (if suffix (lit ''.txt'') f then f else f @ lit ''.txt'')"
    unfolding assms(2) by simp
  ultimately show ?thesis by blast
qed

theorem save_writes_sanitized_path_witness:
  "strip (document_content draft_state) \<noteq> [] \<and>
   write_error writable_env (lit ''poem.txt'') (document_content draft_state) = None \<and>
   save writable_env (lit ''poem'') draft_state
     = (save_success (lit ''poem.txt''),
        draft_state\<lparr>files := (files draft_state)(lit ''poem.txt'' \<mapsto> document_content draft_state)\<rparr>)"
proof -
  have ne: "strip (document_content draft_state) \<noteq> []"
    by (simp add: draft_state_def strip_def lit_def isspace_def)
  have p: "lit ''poem.txt'' = (if suffix (lit ''.txt'') (lit ''poem'') then sanitize writable_env (lit ''poem'')
      else sanitize writable_env (lit ''poem'') @ lit ''.txt'')"
    by (simp add: sanitize_def isalnum_def lit_def suffix_to_prefix)
  have w: "write_error writable_env (lit ''poem.txt'') (document_content draft_state) = None"
    by (simp add: writable_env_def)
  from save_writes_sanitized_path [OF ne p w] ne w show ?thesis by blast
qed

end
